theory Spec2Isabelle
  imports Main "HOL-Library.Word"
begin

section \<open>Path extension in a bidirectional graph (Graph/ExtendPath.h)\<close>

subsection \<open>Data model\<close>

text \<open>
  \<^verbatim>\<open>unsigned\<close> is a 32-bit machine integer; \<^verbatim>\<open>size_t\<close> values are lengths of
  the path and are read as natural numbers.
\<close>

type_synonym unsigned = "32 word"

text \<open>\<^verbatim>\<open>enum PathExtensionResult\<close>, in the order of the source.\<close>

datatype PathExtensionResult =
    DEAD_END
  | BRANCHING_POINT
  | CYCLE
  | LENGTH_LIMIT
  | EXTENDED_TO_DEAD_END
  | EXTENDED_TO_BRANCHING_POINT
  | EXTENDED_TO_CYCLE
  | EXTENDED_TO_LENGTH_LIMIT

text \<open>\<^verbatim>\<open>enum SingleExtensionResult\<close>.\<close>

datatype SingleExtensionResult = SE_DEAD_END | SE_BRANCHING_POINT | SE_EXTENDED

text \<open>
  \<^verbatim>\<open>enum Direction\<close> is declared in Graph/Path.h; the code here uses its two values
  \<^verbatim>\<open>FORWARD\<close> and \<^verbatim>\<open>REVERSE\<close> only, and asserts \<^verbatim>\<open>dir == REVERSE\<close> in every
  branch where \<^verbatim>\<open>dir != FORWARD\<close>.
\<close>

datatype Direction = FORWARD | REVERSE

text \<open>
  The graph is used through the Boost interface only: \<^verbatim>\<open>out_edges(u, g)\<close> with
  \<^verbatim>\<open>target(e, g)\<close> and \<^verbatim>\<open>in_edges(u, g)\<close> with \<^verbatim>\<open>source(e, g)\<close>. The model keeps, for
  each vertex, the targets of its out-edges and the sources of its in-edges, in the
  order in which the edge iterators deliver them. Parallel edges are repeated entries.
  Nothing relates the two fields: the code never relies on it.
\<close>

record 'v Graph =
  out_edges :: "'v \<Rightarrow> 'v list"
  in_edges :: "'v \<Rightarrow> 'v list"

text \<open>
  An out-parameter \<^verbatim>\<open>V* successor\<close>: either the null pointer, or a pointer to a cell
  with its present contents.
\<close>

datatype 'v ptr = NULL | Ptr 'v

text \<open>\<^verbatim>\<open>if (successor != NULL) *successor = x;\<close>\<close>

fun assign :: "'v ptr \<Rightarrow> 'v \<Rightarrow> 'v ptr" where
  "assign NULL x = NULL"
| "assign (Ptr old) x = Ptr x"

text \<open>Failures of the code: a failed \<^verbatim>\<open>assert\<close>, and \<^verbatim>\<open>back()\<close>/\<^verbatim>\<open>front()\<close> of an empty path.\<close>

datatype error = AssertionFailed | EmptyPathAccess

subsection \<open>Result codes\<close>

fun pathExtended :: "PathExtensionResult \<Rightarrow> bool" where
  "pathExtended DEAD_END = False"
| "pathExtended BRANCHING_POINT = False"
| "pathExtended CYCLE = False"
| "pathExtended LENGTH_LIMIT = False"
| "pathExtended r = True"

subsection \<open>Reachability probe\<close>

text \<open>One more level of recursion brings the depth one step closer to the limit, modulo \<open>2^32\<close>.\<close>

lemma unat_limit_minus_suc:
  fixes depth depthLimit :: unsigned
  assumes "depth \<noteq> depthLimit"
  shows "Suc (unat (depthLimit - (depth + 1))) = unat (depthLimit - depth)"
proof -
  have nz: "depthLimit - depth \<noteq> 0"
    using assms by simp
  have eq: "depthLimit - (depth + 1) = (depthLimit - depth) - 1"
    by simp
  have "unat ((depthLimit - depth) - 1) = unat (depthLimit - depth) - 1"
    using nz by (rule unat_minus_one)
  moreover have "0 < unat (depthLimit - depth)"
    using nz by (simp add: unat_gt_0)
  ultimately show ?thesis unfolding eq by arith
qed

text \<open>
  The recursive \<^verbatim>\<open>lookAhead(u, dir, depth, depthLimit, visited, g)\<close>. The set
  \<^verbatim>\<open>visited\<close> is passed by reference and shared by the whole search, so the model
  returns it with the answer. \<open>lookAhead_edges\<close> is the \<^verbatim>\<open>for\<close> loop over the
  remaining edges of \<open>u\<close>; its depth argument is the \<^verbatim>\<open>depth+1\<close> that the loop body
  passes to the recursive call.
\<close>

function lookAhead_visited ::
    "'v \<Rightarrow> Direction \<Rightarrow> unsigned \<Rightarrow> unsigned \<Rightarrow> 'v set \<Rightarrow> 'v Graph \<Rightarrow> bool \<times> 'v set"
  and lookAhead_edges ::
    "'v list \<Rightarrow> Direction \<Rightarrow> unsigned \<Rightarrow> unsigned \<Rightarrow> 'v set \<Rightarrow> 'v Graph \<Rightarrow> bool \<times> 'v set"
where
  "lookAhead_visited u dir depth depthLimit visited g =
     (if depth = depthLimit then (True, insert u visited)
      else lookAhead_edges (if dir = FORWARD then out_edges g u else in_edges g u)
             dir (depth + 1) depthLimit (insert u visited) g)"
| "lookAhead_edges [] dir depth1 depthLimit visited g = (False, visited)"
| "lookAhead_edges (v # vs) dir depth1 depthLimit visited g =
     (if v \<notin> visited then
        (let r = lookAhead_visited v dir depth1 depthLimit visited g in
         if fst r then (True, snd r)
         else lookAhead_edges vs dir depth1 depthLimit (snd r) g)
      else lookAhead_edges vs dir depth1 depthLimit visited g)"
  by pat_completeness auto

termination
proof (relation "measures
         [\<lambda>x. case x of
             Inl (u, dir, depth, depthLimit, visited, g) \<Rightarrow> 2 * unat (depthLimit - depth)
           | Inr (vs, dir, depth1, depthLimit, visited, g) \<Rightarrow> 2 * unat (depthLimit - depth1) + 1,
          \<lambda>x. case x of
             Inl (u, dir, depth, depthLimit, visited, g) \<Rightarrow> 0
           | Inr (vs, dir, depth1, depthLimit, visited, g) \<Rightarrow> length vs]",
       goal_cases)
  case 1
  then show ?case by simp
next
  case (2 u dir depth depthLimit visited g)
  then show ?case
    using unat_limit_minus_suc [of depth depthLimit] by simp
next
  case (3 v vs dir depth1 depthLimit visited g)
  then show ?case by simp
next
  case (4 v vs dir depth1 depthLimit visited g x)
  then show ?case by simp
next
  case (5 v vs dir depth1 depthLimit visited g)
  then show ?case by simp
qed

declare lookAhead_visited.simps [simp del]

text \<open>
  The public \<^verbatim>\<open>lookAhead(start, dir, depth, g)\<close>: a fresh visited set, depth 0, and the
  set is dropped on return.
\<close>

definition lookAhead :: "'v \<Rightarrow> Direction \<Rightarrow> unsigned \<Rightarrow> 'v Graph \<Rightarrow> bool" where
  "lookAhead start dir depth g = fst (lookAhead_visited start dir 0 depth {} g)"

subsection \<open>Branch classifier\<close>

text \<open>
  \<^verbatim>\<open>getSuccessor\<close>, lines 255 to 275: the \<^verbatim>\<open>for\<close> loop over the out-edges that follow
  the first one, and the final test of \<^verbatim>\<open>trueBranches\<close>.
\<close>

fun getSuccessor_loop ::
    "'v list \<Rightarrow> 'v Graph \<Rightarrow> unsigned \<Rightarrow> unsigned \<Rightarrow> 'v ptr \<Rightarrow> SingleExtensionResult \<times> 'v ptr"
where
  "getSuccessor_loop [] g trimLen trueBranches successor =
     (if trueBranches = 0 then (SE_DEAD_END, successor)
      else if trueBranches = 1 then (SE_EXTENDED, successor)
      else (SE_BRANCHING_POINT, successor))"
| "getSuccessor_loop (neighbour # rest) g trimLen trueBranches successor =
     (if lookAhead neighbour FORWARD trimLen g then
        (if trueBranches + 1 \<ge> 2 then (SE_BRANCHING_POINT, successor)
         else getSuccessor_loop rest g trimLen (trueBranches + 1) (assign successor neighbour))
      else getSuccessor_loop rest g trimLen trueBranches successor)"

definition getSuccessor ::
    "'v \<Rightarrow> 'v Graph \<Rightarrow> unsigned \<Rightarrow> 'v ptr \<Rightarrow> SingleExtensionResult \<times> 'v ptr"
where
  "getSuccessor v g trimLen successor =
     (case out_edges g v of
        [] \<Rightarrow> (SE_DEAD_END, successor)
      | neighbour1 # rest \<Rightarrow>
          if rest = [] then (SE_EXTENDED, assign successor neighbour1)
          else getSuccessor_loop rest g trimLen
                 (if lookAhead neighbour1 FORWARD trimLen g then 1 else 0) successor)"

text \<open>\<^verbatim>\<open>getPredecessor\<close>: the same over the in-edges, probing in direction \<^verbatim>\<open>REVERSE\<close>.\<close>

fun getPredecessor_loop ::
    "'v list \<Rightarrow> 'v Graph \<Rightarrow> unsigned \<Rightarrow> unsigned \<Rightarrow> 'v ptr \<Rightarrow> SingleExtensionResult \<times> 'v ptr"
where
  "getPredecessor_loop [] g trimLen trueBranches predecessor =
     (if trueBranches = 0 then (SE_DEAD_END, predecessor)
      else if trueBranches = 1 then (SE_EXTENDED, predecessor)
      else (SE_BRANCHING_POINT, predecessor))"
| "getPredecessor_loop (neighbour # rest) g trimLen trueBranches predecessor =
     (if lookAhead neighbour REVERSE trimLen g then
        (if trueBranches + 1 \<ge> 2 then (SE_BRANCHING_POINT, predecessor)
         else getPredecessor_loop rest g trimLen (trueBranches + 1) (assign predecessor neighbour))
      else getPredecessor_loop rest g trimLen trueBranches predecessor)"

definition getPredecessor ::
    "'v \<Rightarrow> 'v Graph \<Rightarrow> unsigned \<Rightarrow> 'v ptr \<Rightarrow> SingleExtensionResult \<times> 'v ptr"
where
  "getPredecessor v g trimLen predecessor =
     (case in_edges g v of
        [] \<Rightarrow> (SE_DEAD_END, predecessor)
      | neighbour1 # rest \<Rightarrow>
          if rest = [] then (SE_EXTENDED, assign predecessor neighbour1)
          else getPredecessor_loop rest g trimLen
                 (if lookAhead neighbour1 REVERSE trimLen g then 1 else 0) predecessor)"

text \<open>
  \<^verbatim>\<open>trueBranches(u, dir, g, trimLen)\<close>: the neighbours that pass the probe, in edge
  order.
\<close>

definition trueBranches :: "'v \<Rightarrow> Direction \<Rightarrow> 'v Graph \<Rightarrow> unsigned \<Rightarrow> 'v list" where
  "trueBranches u dir g trimLen =
     (if dir = FORWARD then filter (\<lambda>v. lookAhead v dir trimLen g) (out_edges g u)
      else filter (\<lambda>v. lookAhead v dir trimLen g) (in_edges g u))"

text \<open>
  \<^verbatim>\<open>getSingleVertexExtension(v, dir, g, trimLen, vNext)\<close>. \<^verbatim>\<open>vNext\<close> is a reference:
  the model takes its contents at the call and returns its contents at the return.
  The first classification passes no out-parameter (the default \<^verbatim>\<open>NULL\<close>), the second
  passes \<^verbatim>\<open>&vNext\<close>; a pointer that is not null on entry is not null on return.
\<close>

definition getSingleVertexExtension ::
    "'v \<Rightarrow> Direction \<Rightarrow> 'v Graph \<Rightarrow> unsigned \<Rightarrow> 'v \<Rightarrow> SingleExtensionResult \<times> 'v"
where
  "getSingleVertexExtension v dir g trimLen vNext =
     (let result = (if dir = FORWARD then fst (getPredecessor v g trimLen NULL)
                    else fst (getSuccessor v g trimLen NULL))
      in if result = SE_BRANCHING_POINT then (SE_BRANCHING_POINT, vNext)
         else (case (if dir = FORWARD then getSuccessor v g trimLen (Ptr vNext)
                     else getPredecessor v g trimLen (Ptr vNext)) of
                 (result, Ptr x) \<Rightarrow> (result, x)
               | (result, NULL) \<Rightarrow> (result, vNext)))"

subsection \<open>Path extender\<close>

text \<open>
  A path is a \<^verbatim>\<open>std::deque\<close> of vertices. \<^verbatim>\<open>back()\<close>, \<^verbatim>\<open>front()\<close>, \<^verbatim>\<open>pop_back()\<close> and
  \<^verbatim>\<open>pop_front()\<close> are defined on a non-empty deque only; \<open>path_back\<close> and
  \<open>path_front\<close> are \<^verbatim>\<open>path.back()\<close> and \<^verbatim>\<open>path.front()\<close>.
\<close>

definition path_back :: "'v list \<Rightarrow> error + 'v" where
  "path_back p = (if p = [] then Inl EmptyPathAccess else Inr (last p))"

definition path_front :: "'v list \<Rightarrow> error + 'v" where
  "path_front p = (if p = [] then Inl EmptyPathAccess else Inr (hd p))"

definition pop_back :: "'v list \<Rightarrow> error + 'v list" where
  "pop_back p = (if p = [] then Inl EmptyPathAccess else Inr (butlast p))"

definition pop_front :: "'v list \<Rightarrow> error + 'v list" where
  "pop_front p = (if p = [] then Inl EmptyPathAccess else Inr (tl p))"

text \<open>
  \<^verbatim>\<open>extendPathBySingleVertex(path, dir, g, trimLen)\<close> returns the classification and
  the path. The local \<^verbatim>\<open>V vNext;\<close> is default-initialised; \<open>vDefault\<close> is the value
  it holds before the call of \<^verbatim>\<open>getSingleVertexExtension\<close>.
\<close>

definition extendPathBySingleVertex ::
    "'v \<Rightarrow> 'v list \<Rightarrow> Direction \<Rightarrow> 'v Graph \<Rightarrow> unsigned \<Rightarrow> error + (SingleExtensionResult \<times> 'v list)"
where
  "extendPathBySingleVertex vDefault path dir g trimLen =
     (case (if dir = FORWARD then path_back path else path_front path) of
        Inl e \<Rightarrow> Inl e
      | Inr v \<Rightarrow>
          (case getSingleVertexExtension v dir g trimLen vDefault of
             (result, vNext) \<Rightarrow>
               if result = SE_EXTENDED then
                 (if dir = FORWARD then Inr (result, path @ [vNext])
                  else Inr (result, vNext # path))
               else Inr (result, path)))"

lemma extendPathBySingleVertex_Inr:
  assumes "extendPathBySingleVertex vDefault path dir g trimLen = Inr (r, path')"
  shows "path \<noteq> []"
    and "r = SE_EXTENDED \<Longrightarrow> length path' = Suc (length path)"
    and "r \<noteq> SE_EXTENDED \<Longrightarrow> path' = path"
  using assms
  by (auto simp: extendPathBySingleVertex_def path_back_def path_front_def
           split: if_splits prod.splits sum.splits)

text \<open>
  The \<^verbatim>\<open>while\<close> loop of \<^verbatim>\<open>extendPath\<close>, lines 463 to 478, over the variables it
  changes: \<^verbatim>\<open>path\<close>, \<^verbatim>\<open>visited\<close>, \<^verbatim>\<open>result\<close> and \<^verbatim>\<open>detectedCycle\<close>. \<^verbatim>\<open>path.size()\<close>
  is a \<^verbatim>\<open>size_t\<close> and \<^verbatim>\<open>maxLen\<close> an \<^verbatim>\<open>unsigned\<close>, converted for the comparison.
\<close>

function extendPath_loop ::
    "'v \<Rightarrow> 'v list \<Rightarrow> Direction \<Rightarrow> 'v Graph \<Rightarrow> 'v set \<Rightarrow> unsigned \<Rightarrow> unsigned \<Rightarrow>
     SingleExtensionResult \<Rightarrow> bool \<Rightarrow>
     error + ('v list \<times> 'v set \<times> SingleExtensionResult \<times> bool)"
where
  "extendPath_loop vDefault path dir g visited trimLen maxLen result detectedCycle =
     (if result = SE_EXTENDED \<and> \<not> detectedCycle \<and> length path < unat maxLen then
        (case extendPathBySingleVertex vDefault path dir g trimLen of
           Inl e \<Rightarrow> Inl e
         | Inr (result', path') \<Rightarrow>
             if result' = SE_EXTENDED then
               (case (if dir = FORWARD then path_back path' else path_front path') of
                  Inl e \<Rightarrow> Inl e
                | Inr x \<Rightarrow>
                    extendPath_loop vDefault path' dir g (insert x visited) trimLen maxLen
                      result' (if x \<in> visited then True else detectedCycle))
             else extendPath_loop vDefault path' dir g visited trimLen maxLen
                    result' detectedCycle)
      else Inr (path, visited, result, detectedCycle))"
  by pat_completeness auto

termination
proof (relation "measure (\<lambda>(vDefault, path, dir, g, visited, trimLen, maxLen, result, detectedCycle).
         if result = SE_EXTENDED \<and> \<not> detectedCycle then Suc (unat maxLen) - length path else 0)",
       goal_cases)
  case 1
  then show ?case by simp
next
  case (2 vDefault path dir g visited trimLen maxLen result detectedCycle x2 result' path' x)
  then have "length path' = Suc (length path)"
    using extendPathBySingleVertex_Inr(2) [of vDefault path dir g trimLen result' path'] by simp
  with 2 show ?case by auto
next
  case (3 vDefault path dir g visited trimLen maxLen result detectedCycle x2 result' path')
  then show ?case by auto
qed

declare extendPath_loop.simps [simp del]

text \<open>The choice of the result code, lines 490 to 514, with its assertions.\<close>

definition extendPath_code ::
    "nat \<Rightarrow> nat \<Rightarrow> bool \<Rightarrow> SingleExtensionResult \<Rightarrow> unsigned \<Rightarrow> error + PathExtensionResult"
where
  "extendPath_code pathSize origPathLen detectedCycle result maxLen =
     (if pathSize > origPathLen then
        (if detectedCycle then Inr EXTENDED_TO_CYCLE
         else if result = SE_DEAD_END then Inr EXTENDED_TO_DEAD_END
         else if result = SE_BRANCHING_POINT then Inr EXTENDED_TO_BRANCHING_POINT
         else if result = SE_EXTENDED \<and> pathSize = unat maxLen then Inr EXTENDED_TO_LENGTH_LIMIT
         else Inl AssertionFailed)
      else if pathSize \<noteq> origPathLen then Inl AssertionFailed
      else
        (if detectedCycle then Inr CYCLE
         else if result = SE_DEAD_END then Inr DEAD_END
         else if result = SE_BRANCHING_POINT then Inr BRANCHING_POINT
         else if origPathLen \<ge> unat maxLen then Inr LENGTH_LIMIT
         else Inl AssertionFailed))"

text \<open>
  The core \<^verbatim>\<open>extendPath(path, dir, g, visited, trimLen, maxLen)\<close>. It returns the
  result code with the path and the visited set as they are on return. The constant
  \<^verbatim>\<open>NO_LIMIT\<close> is declared outside this file and is a parameter here, of the type of
  \<^verbatim>\<open>maxLen\<close>, whose default value it is.
\<close>

definition extendPath ::
    "unsigned \<Rightarrow> 'v \<Rightarrow> 'v list \<Rightarrow> Direction \<Rightarrow> 'v Graph \<Rightarrow> 'v set \<Rightarrow> unsigned \<Rightarrow> unsigned \<Rightarrow>
     error + (PathExtensionResult \<times> 'v list \<times> 'v set)"
where
  "extendPath NO_LIMIT vDefault path dir g visited trimLen maxLen =
     (if \<not> length path > 0 then Inl AssertionFailed
      else if length path \<noteq> unat NO_LIMIT \<and> length path \<ge> unat maxLen
        then Inr (LENGTH_LIMIT, path, visited)
      else
        (case extendPath_loop vDefault path dir g visited trimLen maxLen SE_EXTENDED False of
           Inl e \<Rightarrow> Inl e
         | Inr (path1, visited1, result, detectedCycle) \<Rightarrow>
             (case (if detectedCycle
                    then (if dir = FORWARD then pop_back path1 else pop_front path1)
                    else Inr path1) of
                Inl e \<Rightarrow> Inl e
              | Inr path2 \<Rightarrow>
                  (case extendPath_code (length path2) (length path) detectedCycle result maxLen of
                     Inl e \<Rightarrow> Inl e
                   | Inr code \<Rightarrow> Inr (code, path2, visited1)))))"

text \<open>
  The overload without \<^verbatim>\<open>visited\<close>: the set is local, seeded with the vertices of the
  path, and dropped on return.
\<close>

definition extendPath_seeded ::
    "unsigned \<Rightarrow> 'v \<Rightarrow> 'v list \<Rightarrow> Direction \<Rightarrow> 'v Graph \<Rightarrow> unsigned \<Rightarrow> unsigned \<Rightarrow>
     error + (PathExtensionResult \<times> 'v list)"
where
  "extendPath_seeded NO_LIMIT vDefault path dir g trimLen maxLen =
     (case extendPath NO_LIMIT vDefault path dir g (set path) trimLen maxLen of
        Inl e \<Rightarrow> Inl e
      | Inr (code, path', visited') \<Rightarrow> Inr (code, path'))"

subsection \<open>Example graphs\<close>

text \<open>The linear chain 0, 1, 2, 3.\<close>

definition chain :: "nat Graph" where
  "chain = \<lparr>out_edges = (\<lambda>u. if u < 3 then [u + 1] else []),
            in_edges = (\<lambda>u. if 0 < u \<and> u \<le> 3 then [u - 1] else [])\<rparr>"

text \<open>A vertex 0 whose only out-edge leads to the dead end 1.\<close>

definition spur :: "nat Graph" where
  "spur = \<lparr>out_edges = (\<lambda>u. if u = 0 then [1] else []),
           in_edges = (\<lambda>u. if u = 1 then [0] else [])\<rparr>"

text \<open>Two edges into vertex 2, one edge from 2 to 3.\<close>

definition funnel :: "nat Graph" where
  "funnel = \<lparr>out_edges = (\<lambda>u. if u = 0 \<or> u = 1 then [2] else if u = 2 then [3] else []),
             in_edges = (\<lambda>u. if u = 2 then [0, 1] else if u = 3 then [2] else [])\<rparr>"

text \<open>The cycle 0, 1, 2, 0.\<close>

definition cyc :: "nat Graph" where
  "cyc = \<lparr>out_edges = (\<lambda>u. if u = 0 then [1] else if u = 1 then [2] else if u = 2 then [0] else []),
          in_edges = (\<lambda>u. if u = 0 then [2] else if u = 1 then [0] else if u = 2 then [1] else [])\<rparr>"

text \<open>The cycle 0, 1, 0.\<close>

definition two_cycle :: "nat Graph" where
  "two_cycle = \<lparr>out_edges = (\<lambda>u. if u = 0 then [1] else if u = 1 then [0] else []),
                in_edges = (\<lambda>u. if u = 0 then [1] else if u = 1 then [0] else [])\<rparr>"

text \<open>
  Vertex 0 has the out-edges to 1 and to 2, in this order; 1 has a successor and 2 has
  none. In \<open>fork_swapped\<close> the two out-edges of 0 come in the other order.
\<close>

definition fork :: "nat Graph" where
  "fork = \<lparr>out_edges = (\<lambda>u. if u = 0 then [1, 2] else if u = 1 then [3] else []),
           in_edges = (\<lambda>u. if u = 1 \<or> u = 2 then [0] else if u = 3 then [1] else [])\<rparr>"

definition fork_swapped :: "nat Graph" where
  "fork_swapped = \<lparr>out_edges = (\<lambda>u. if u = 0 then [2, 1] else if u = 1 then [3] else []),
           in_edges = (\<lambda>u. if u = 1 \<or> u = 2 then [0] else if u = 3 then [1] else [])\<rparr>"

text \<open>
  Vertex 3 has the in-edges from 1 and from 2, in this order; 1 has a predecessor and 2
  has none.
\<close>

definition join :: "nat Graph" where
  "join = \<lparr>out_edges = (\<lambda>u. if u = 0 then [1] else if u = 1 \<or> u = 2 then [3] else []),
           in_edges = (\<lambda>u. if u = 1 then [0] else if u = 3 then [1, 2] else [])\<rparr>"

section \<open>Properties\<close>

subsection \<open>Reachability probe\<close>

text \<open>
  Claim C9. A probe with depth limit zero succeeds, for every vertex, direction and
  graph: the recursive search is entered at depth 0, which is the limit.
\<close>

theorem lookAhead_zero: "lookAhead v dir 0 g = True"
  by (simp add: lookAhead_def lookAhead_visited.simps)

text \<open>
  Below the smaller limit \<open>d'\<close> the search with limit \<open>d\<close> takes the same steps as the
  search with limit \<open>d'\<close>: a search with limit \<open>d'\<close> that fails has reached depth \<open>d'\<close>
  nowhere, and the search with limit \<open>d\<close> fails with the same visited set.
\<close>

lemma lookAhead_smaller_limit_aux:
  fixes d :: unsigned
  shows "depth \<le> d' \<Longrightarrow> d' \<le> d \<Longrightarrow> \<not> fst (lookAhead_visited u dir depth d' visited g) \<Longrightarrow>
         lookAhead_visited u dir depth d visited g = lookAhead_visited u dir depth d' visited g"
    and "depth1 \<le> d' \<Longrightarrow> d' \<le> d \<Longrightarrow> \<not> fst (lookAhead_edges vs dir depth1 d' visited g) \<Longrightarrow>
         lookAhead_edges vs dir depth1 d visited g = lookAhead_edges vs dir depth1 d' visited g"
proof (induction u dir depth d' visited g and vs dir depth1 d' visited g
       rule: lookAhead_visited_lookAhead_edges.induct)
  case (1 u dir depth depthLimit visited g)
  have ne: "depth \<noteq> depthLimit"
    using "1.prems"(3) by (auto simp: lookAhead_visited.simps)
  then have lt: "depth < depthLimit"
    using "1.prems"(1) by simp
  then have le: "depth + 1 \<le> depthLimit"
    by (rule inc_le)
  have ne': "depth \<noteq> d"
    using lt "1.prems"(2) by auto
  have "\<not> fst (lookAhead_edges (if dir = FORWARD then out_edges g u else in_edges g u)
                 dir (depth + 1) depthLimit (insert u visited) g)"
    using "1.prems"(3) ne by (simp add: lookAhead_visited.simps)
  then have "lookAhead_edges (if dir = FORWARD then out_edges g u else in_edges g u)
                 dir (depth + 1) d (insert u visited) g =
             lookAhead_edges (if dir = FORWARD then out_edges g u else in_edges g u)
                 dir (depth + 1) depthLimit (insert u visited) g"
    using "1.IH" [OF ne le "1.prems"(2)] by simp
  then show ?case
    using ne ne' by (simp add: lookAhead_visited.simps)
next
  case (2 dir depth1 depthLimit visited g)
  then show ?case by simp
next
  case (3 v vs dir depth1 depthLimit visited g)
  show ?case
  proof (cases "v \<in> visited")
    case True
    then show ?thesis
      using "3.IH"(3) "3.prems" by simp
  next
    case False
    define r where "r = lookAhead_visited v dir depth1 depthLimit visited g"
    have nf: "\<not> fst r"
      using "3.prems"(3) False by (auto simp: r_def Let_def split: if_splits)
    have rest: "\<not> fst (lookAhead_edges vs dir depth1 depthLimit (snd r) g)"
      using "3.prems"(3) False nf by (simp add: r_def Let_def)
    have same: "lookAhead_visited v dir depth1 d visited g = r"
      using "3.IH"(1) [OF _ "3.prems"(1,2)] False nf by (simp add: r_def)
    have "lookAhead_edges vs dir depth1 d (snd r) g =
          lookAhead_edges vs dir depth1 depthLimit (snd r) g"
      using "3.IH"(2) [OF _ r_def _ "3.prems"(1,2) rest] False nf by simp
    then show ?thesis
      using False nf same by (simp add: r_def [symmetric] Let_def)
  qed
qed

text \<open>
  Claim C5. The probe is monotone in its depth limit: if it succeeds with limit \<open>d\<close>,
  it succeeds with every limit \<open>d' \<le> d\<close>, for every vertex, direction and graph.
\<close>

theorem lookAhead_monotone:
  assumes "d' \<le> d" and "lookAhead v dir d g"
  shows "lookAhead v dir d' g"
proof (rule ccontr)
  assume "\<not> lookAhead v dir d' g"
  then have "\<not> fst (lookAhead_visited v dir 0 d' {} g)"
    by (simp add: lookAhead_def)
  then have "lookAhead_visited v dir 0 d {} g = lookAhead_visited v dir 0 d' {} g"
    using lookAhead_smaller_limit_aux(1) [of 0 d' d v dir "{}" g] assms(1) by simp
  then show False
    using assms(2) \<open>\<not> fst (lookAhead_visited v dir 0 d' {} g)\<close> by (simp add: lookAhead_def)
qed

text \<open>On the chain, vertex 0 reaches depth 3 and not depth 4.\<close>

theorem lookAhead_monotone_witness:
  "(1::unsigned) \<le> 3 \<and> lookAhead 0 FORWARD 3 chain \<and> lookAhead 0 FORWARD 1 chain \<and>
   \<not> lookAhead 0 FORWARD 4 chain"
proof -
  have a: "(1::unsigned) \<le> 3" by simp
  have b: "lookAhead 0 FORWARD 3 chain" by code_simp
  have c: "\<not> lookAhead 0 FORWARD 4 chain" by code_simp
  show ?thesis
    using lookAhead_monotone [OF a b] a b c by simp
qed

subsection \<open>Branch classifier\<close>

text \<open>
  Claim C6. A vertex with exactly one out-edge (in-edge) is classified
  \<^verbatim>\<open>SE_EXTENDED\<close> by \<^verbatim>\<open>getSuccessor\<close> (\<^verbatim>\<open>getPredecessor\<close>), whatever \<^verbatim>\<open>trimLen\<close> is
  and without any probe of the neighbour; an out-parameter that is not null receives
  that neighbour.
\<close>

theorem single_edge_extended:
  "(out_edges g v = [n] \<longrightarrow>
      getSuccessor v g trimLen NULL = (SE_EXTENDED, NULL) \<and>
      getSuccessor v g trimLen (Ptr old) = (SE_EXTENDED, Ptr n)) \<and>
   (in_edges g v = [n] \<longrightarrow>
      getPredecessor v g trimLen NULL = (SE_EXTENDED, NULL) \<and>
      getPredecessor v g trimLen (Ptr old) = (SE_EXTENDED, Ptr n))"
  by (simp add: getSuccessor_def getPredecessor_def)

text \<open>
  In \<open>spur\<close> the only neighbour of 0 fails the probe of depth 5, and is taken all the
  same.
\<close>

theorem single_edge_extended_witness:
  "out_edges spur 0 = [1] \<and> \<not> lookAhead 1 FORWARD 5 spur \<and>
   getSuccessor 0 spur 5 (Ptr 99) = (SE_EXTENDED, Ptr 1) \<and>
   in_edges spur 1 = [0] \<and> \<not> lookAhead 0 REVERSE 5 spur \<and>
   getPredecessor 1 spur 5 (Ptr 99) = (SE_EXTENDED, Ptr 0)"
proof -
  have e: "out_edges spur 0 = [1]" "in_edges spur 1 = [0]"
    by (simp_all add: spur_def)
  have l: "\<not> lookAhead 1 FORWARD 5 spur" "\<not> lookAhead 0 REVERSE 5 spur"
    by code_simp+
  show ?thesis
    using single_edge_extended [of spur 0 1 5 99] single_edge_extended [of spur 1 0 5 99] e l
    by simp
qed

text \<open>A classification through a pointer that is not null returns a pointer that is not null.\<close>

lemma getSuccessor_loop_Ptr:
  "\<exists>x. getSuccessor_loop ns g trimLen tb (Ptr a) = (fst (getSuccessor_loop ns g trimLen tb (Ptr a)), Ptr x)"
  by (induction ns arbitrary: tb a) auto

lemma getPredecessor_loop_Ptr:
  "\<exists>x. getPredecessor_loop ns g trimLen tb (Ptr a) = (fst (getPredecessor_loop ns g trimLen tb (Ptr a)), Ptr x)"
  by (induction ns arbitrary: tb a) auto

lemma getSuccessor_Ptr:
  "\<exists>x. getSuccessor v g trimLen (Ptr a) = (fst (getSuccessor v g trimLen (Ptr a)), Ptr x)"
  using getSuccessor_loop_Ptr [of _ g trimLen _ a]
  by (auto simp: getSuccessor_def split: list.splits)

lemma getPredecessor_Ptr:
  "\<exists>x. getPredecessor v g trimLen (Ptr a) = (fst (getPredecessor v g trimLen (Ptr a)), Ptr x)"
  using getPredecessor_loop_Ptr [of _ g trimLen _ a]
  by (auto simp: getPredecessor_def split: list.splits)

text \<open>
  Claim C2. \<^verbatim>\<open>getSingleVertexExtension\<close> classifies the side opposite to \<open>dir\<close>
  first (\<^verbatim>\<open>getPredecessor\<close> for \<^verbatim>\<open>FORWARD\<close>, \<^verbatim>\<open>getSuccessor\<close> for \<^verbatim>\<open>REVERSE\<close>). If
  that is \<^verbatim>\<open>SE_BRANCHING_POINT\<close>, this is the result and \<^verbatim>\<open>vNext\<close> is left as it
  was: the side of \<open>dir\<close> is not classified. Otherwise the result and the contents of
  \<^verbatim>\<open>vNext\<close> are those that the classification of the side of \<open>dir\<close> produces through
  \<^verbatim>\<open>&vNext\<close>.
\<close>

theorem getSingleVertexExtension_precedence:
  "(fst (getPredecessor v g trimLen NULL) = SE_BRANCHING_POINT \<longrightarrow>
      getSingleVertexExtension v FORWARD g trimLen vNext = (SE_BRANCHING_POINT, vNext)) \<and>
   (fst (getPredecessor v g trimLen NULL) \<noteq> SE_BRANCHING_POINT \<longrightarrow>
      (\<exists>r x. getSuccessor v g trimLen (Ptr vNext) = (r, Ptr x) \<and>
             getSingleVertexExtension v FORWARD g trimLen vNext = (r, x))) \<and>
   (fst (getSuccessor v g trimLen NULL) = SE_BRANCHING_POINT \<longrightarrow>
      getSingleVertexExtension v REVERSE g trimLen vNext = (SE_BRANCHING_POINT, vNext)) \<and>
   (fst (getSuccessor v g trimLen NULL) \<noteq> SE_BRANCHING_POINT \<longrightarrow>
      (\<exists>r x. getPredecessor v g trimLen (Ptr vNext) = (r, Ptr x) \<and>
             getSingleVertexExtension v REVERSE g trimLen vNext = (r, x)))"
proof -
  obtain x where s: "getSuccessor v g trimLen (Ptr vNext) = (fst (getSuccessor v g trimLen (Ptr vNext)), Ptr x)"
    using getSuccessor_Ptr [of v g trimLen vNext] by blast
  obtain y where p: "getPredecessor v g trimLen (Ptr vNext) = (fst (getPredecessor v g trimLen (Ptr vNext)), Ptr y)"
    using getPredecessor_Ptr [of v g trimLen vNext] by blast
  have f: "fst (getPredecessor v g trimLen NULL) \<noteq> SE_BRANCHING_POINT \<Longrightarrow>
      getSingleVertexExtension v FORWARD g trimLen vNext = (fst (getSuccessor v g trimLen (Ptr vNext)), x)"
    unfolding getSingleVertexExtension_def Let_def by (subst s) simp
  have r: "fst (getSuccessor v g trimLen NULL) \<noteq> SE_BRANCHING_POINT \<Longrightarrow>
      getSingleVertexExtension v REVERSE g trimLen vNext = (fst (getPredecessor v g trimLen (Ptr vNext)), y)"
    unfolding getSingleVertexExtension_def Let_def by (subst p) simp
  have b: "fst (getPredecessor v g trimLen NULL) = SE_BRANCHING_POINT \<Longrightarrow>
      getSingleVertexExtension v FORWARD g trimLen vNext = (SE_BRANCHING_POINT, vNext)"
     "fst (getSuccessor v g trimLen NULL) = SE_BRANCHING_POINT \<Longrightarrow>
      getSingleVertexExtension v REVERSE g trimLen vNext = (SE_BRANCHING_POINT, vNext)"
    by (simp_all add: getSingleVertexExtension_def)
  show ?thesis
    using s p f r b by metis
qed

text \<open>
  In \<open>funnel\<close>, vertex 2 has two incoming true branches and one successor: forwards it
  is a branching point although \<^verbatim>\<open>getSuccessor\<close> alone would extend to 3.
\<close>

theorem getSingleVertexExtension_precedence_witness:
  "fst (getPredecessor 2 funnel 0 NULL) = SE_BRANCHING_POINT \<and>
   getSuccessor 2 funnel 0 (Ptr 99) = (SE_EXTENDED, Ptr 3) \<and>
   getSingleVertexExtension 2 FORWARD funnel 0 99 = (SE_BRANCHING_POINT, 99) \<and>
   fst (getSuccessor 2 funnel 0 NULL) \<noteq> SE_BRANCHING_POINT \<and>
   getPredecessor 2 funnel 0 (Ptr 99) = (SE_BRANCHING_POINT, Ptr 99) \<and>
   getSingleVertexExtension 2 REVERSE funnel 0 99 = (SE_BRANCHING_POINT, 99) \<and>
   fst (getPredecessor 3 funnel 0 NULL) \<noteq> SE_BRANCHING_POINT \<and>
   getSuccessor 3 funnel 0 (Ptr 99) = (SE_DEAD_END, Ptr 99) \<and>
   getSingleVertexExtension 3 FORWARD funnel 0 99 = (SE_DEAD_END, 99)"
proof -
  have a: "fst (getPredecessor 2 funnel 0 NULL) = SE_BRANCHING_POINT"
    by code_simp
  have b: "getSuccessor 2 funnel 0 (Ptr 99) = (SE_EXTENDED, Ptr 3)"
    by code_simp
  have c: "fst (getSuccessor 2 funnel 0 NULL) \<noteq> SE_BRANCHING_POINT"
    by code_simp
  have d: "getPredecessor 2 funnel 0 (Ptr 99) = (SE_BRANCHING_POINT, Ptr 99)"
    by code_simp
  have e: "fst (getPredecessor 3 funnel 0 NULL) \<noteq> SE_BRANCHING_POINT"
    by code_simp
  have f: "getSuccessor 3 funnel 0 (Ptr 99) = (SE_DEAD_END, Ptr 99)"
    by code_simp
  show ?thesis
    using getSingleVertexExtension_precedence [of 2 funnel 0 99]
      getSingleVertexExtension_precedence [of 3 funnel 0 99] a b c d e f
    by simp
qed

text \<open>
  Two or more edges of which exactly one neighbour passes the probe: both functions
  return \<^verbatim>\<open>SE_EXTENDED\<close>. When the neighbour that passes is not the first one, the loop
  stores it through the out-parameter. When it is the first one, nothing is stored: the
  loop starts at the second edge, and the test of \<^verbatim>\<open>neighbour1\<close> before the loop only
  counts.
\<close>

lemma getSuccessor_loop_no_branch:
  assumes "\<forall>n \<in> set ns. \<not> lookAhead n FORWARD trimLen g"
  shows "getSuccessor_loop ns g trimLen tb successor = getSuccessor_loop [] g trimLen tb successor"
  using assms by (induction ns) simp_all

lemma getPredecessor_loop_no_branch:
  assumes "\<forall>n \<in> set ns. \<not> lookAhead n REVERSE trimLen g"
  shows "getPredecessor_loop ns g trimLen tb predecessor =
         getPredecessor_loop [] g trimLen tb predecessor"
  using assms by (induction ns) simp_all

lemma one_true_branch: "\<not> (2 :: unsigned) \<le> 1"
  by (simp add: word_le_nat_alt)

lemma getSuccessor_loop_one_branch:
  assumes "\<forall>n \<in> set as. \<not> lookAhead n FORWARD trimLen g"
    and "lookAhead n FORWARD trimLen g"
    and "\<forall>n \<in> set bs. \<not> lookAhead n FORWARD trimLen g"
  shows "getSuccessor_loop (as @ n # bs) g trimLen 0 successor = (SE_EXTENDED, assign successor n)"
  using assms
  by (induction as) (simp_all add: getSuccessor_loop_no_branch [of bs] one_true_branch)

lemma getPredecessor_loop_one_branch:
  assumes "\<forall>n \<in> set as. \<not> lookAhead n REVERSE trimLen g"
    and "lookAhead n REVERSE trimLen g"
    and "\<forall>n \<in> set bs. \<not> lookAhead n REVERSE trimLen g"
  shows "getPredecessor_loop (as @ n # bs) g trimLen 0 predecessor =
         (SE_EXTENDED, assign predecessor n)"
  using assms
  by (induction as) (simp_all add: getPredecessor_loop_no_branch [of bs] one_true_branch)

lemma getSuccessor_later_branch_stored:
  assumes "out_edges g v = neighbour1 # as @ n # bs"
    and "\<not> lookAhead neighbour1 FORWARD trimLen g"
    and "\<forall>n \<in> set as. \<not> lookAhead n FORWARD trimLen g"
    and "lookAhead n FORWARD trimLen g"
    and "\<forall>n \<in> set bs. \<not> lookAhead n FORWARD trimLen g"
  shows "getSuccessor v g trimLen successor = (SE_EXTENDED, assign successor n)"
  using assms by (simp add: getSuccessor_def getSuccessor_loop_one_branch)

lemma getSuccessor_first_branch_lost:
  assumes "out_edges g v = neighbour1 # rest" and "rest \<noteq> []"
    and "lookAhead neighbour1 FORWARD trimLen g"
    and "\<forall>n \<in> set rest. \<not> lookAhead n FORWARD trimLen g"
  shows "getSuccessor v g trimLen successor = (SE_EXTENDED, successor)"
  using assms by (simp add: getSuccessor_def getSuccessor_loop_no_branch)

lemma getPredecessor_later_branch_stored:
  assumes "in_edges g v = neighbour1 # as @ n # bs"
    and "\<not> lookAhead neighbour1 REVERSE trimLen g"
    and "\<forall>n \<in> set as. \<not> lookAhead n REVERSE trimLen g"
    and "lookAhead n REVERSE trimLen g"
    and "\<forall>n \<in> set bs. \<not> lookAhead n REVERSE trimLen g"
  shows "getPredecessor v g trimLen predecessor = (SE_EXTENDED, assign predecessor n)"
  using assms by (simp add: getPredecessor_def getPredecessor_loop_one_branch)

lemma getPredecessor_first_branch_lost:
  assumes "in_edges g v = neighbour1 # rest" and "rest \<noteq> []"
    and "lookAhead neighbour1 REVERSE trimLen g"
    and "\<forall>n \<in> set rest. \<not> lookAhead n REVERSE trimLen g"
  shows "getPredecessor v g trimLen predecessor = (SE_EXTENDED, predecessor)"
  using assms by (simp add: getPredecessor_def getPredecessor_loop_no_branch)

text \<open>
  Claim C1. With two or more edges of which exactly one neighbour passes the probe,
  \<^verbatim>\<open>getSuccessor\<close> (\<^verbatim>\<open>getPredecessor\<close>) is to return \<^verbatim>\<open>SE_EXTENDED\<close> and to set an
  out-parameter that is not null to that neighbour, also when it is the neighbour of
  the first edge. The code does not in that case. In \<open>fork\<close>, of the neighbours 1 and 2
  of vertex 0 only the first passes the probe of depth 1: \<^verbatim>\<open>getSuccessor\<close> returns
  \<^verbatim>\<open>SE_EXTENDED\<close> and leaves the cell at its old contents 99, and
  \<^verbatim>\<open>extendPathBySingleVertex\<close> appends the default-initialised \<^verbatim>\<open>vNext\<close> to the path.
  With the edges in the other order the cell receives 1. \<^verbatim>\<open>getPredecessor\<close> does the
  same in \<open>join\<close>.
\<close>

theorem first_true_branch_not_stored:
  "out_edges fork 0 = [1, 2] \<and>
   lookAhead 1 FORWARD 1 fork \<and> \<not> lookAhead 2 FORWARD 1 fork \<and>
   getSuccessor 0 fork 1 (Ptr 99) = (SE_EXTENDED, Ptr 99) \<and>
   extendPathBySingleVertex 99 [0] FORWARD fork 1 = Inr (SE_EXTENDED, [0, 99]) \<and>
   out_edges fork_swapped 0 = [2, 1] \<and>
   getSuccessor 0 fork_swapped 1 (Ptr 99) = (SE_EXTENDED, Ptr 1) \<and>
   in_edges join 3 = [1, 2] \<and>
   lookAhead 1 REVERSE 1 join \<and> \<not> lookAhead 2 REVERSE 1 join \<and>
   getPredecessor 3 join 1 (Ptr 99) = (SE_EXTENDED, Ptr 99) \<and>
   extendPathBySingleVertex 99 [3] REVERSE join 1 = Inr (SE_EXTENDED, [99, 3])"
  by code_simp

subsection \<open>Path extender\<close>

text \<open>
  One step on a path that is not empty: either the classification is \<^verbatim>\<open>SE_EXTENDED\<close>
  and one vertex is appended (\<^verbatim>\<open>FORWARD\<close>) or prepended (\<^verbatim>\<open>REVERSE\<close>), or it is another
  classification and the path is as before.
\<close>

lemma extendPathBySingleVertex_cases:
  assumes "path \<noteq> []"
  obtains (extended) x where
      "extendPathBySingleVertex vDefault path dir g trimLen =
         Inr (SE_EXTENDED, if dir = FORWARD then path @ [x] else x # path)"
  | (stopped) r where "r \<noteq> SE_EXTENDED"
      "extendPathBySingleVertex vDefault path dir g trimLen = Inr (r, path)"
proof -
  define v where "v = (if dir = FORWARD then last path else hd path)"
  obtain r x where gsve: "getSingleVertexExtension v dir g trimLen vDefault = (r, x)"
    by (cases "getSingleVertexExtension v dir g trimLen vDefault")
  have ends: "(if dir = FORWARD then path_back path else path_front path) = Inr v"
    using assms by (simp add: v_def path_back_def path_front_def)
  show thesis
  proof (cases "r = SE_EXTENDED")
    case True
    have "extendPathBySingleVertex vDefault path dir g trimLen =
            Inr (SE_EXTENDED, if dir = FORWARD then path @ [x] else x # path)"
      unfolding extendPathBySingleVertex_def ends using gsve True by simp
    then show thesis by (rule extended)
  next
    case False
    have "extendPathBySingleVertex vDefault path dir g trimLen = Inr (r, path)"
      unfolding extendPathBySingleVertex_def ends using gsve False by simp
    with False show thesis by (rule stopped)
  qed
qed

text \<open>
  An invariant rule for the \<^verbatim>\<open>while\<close> loop: a predicate on the four loop variables
  that holds on entry, and that both kinds of step keep, holds on exit, where the loop
  condition is false. The loop returns: the path never becomes empty, and the length
  of the path is bounded by \<^verbatim>\<open>maxLen\<close>.
\<close>

lemma extendPath_loop_rule:
  assumes init: "P path visited result detectedCycle"
    and nonempty: "\<And>p vis r c. P p vis r c \<Longrightarrow> p \<noteq> []"
    and push: "\<And>p vis x. P p vis SE_EXTENDED False \<Longrightarrow> length p < unat maxLen \<Longrightarrow>
                 P (if dir = FORWARD then p @ [x] else x # p) (insert x vis) SE_EXTENDED (x \<in> vis)"
    and stop: "\<And>p vis r. P p vis SE_EXTENDED False \<Longrightarrow> length p < unat maxLen \<Longrightarrow>
                 r \<noteq> SE_EXTENDED \<Longrightarrow> P p vis r False"
  shows "\<exists>p1 vis1 r1 c1.
           extendPath_loop vDefault path dir g visited trimLen maxLen result detectedCycle =
             Inr (p1, vis1, r1, c1) \<and>
           P p1 vis1 r1 c1 \<and> \<not> (r1 = SE_EXTENDED \<and> \<not> c1 \<and> length p1 < unat maxLen)"
  using init
proof (induction "if result = SE_EXTENDED \<and> \<not> detectedCycle
                  then Suc (unat maxLen) - length path else 0"
       arbitrary: path visited result detectedCycle rule: less_induct)
  case less
  show ?case
  proof (cases "result = SE_EXTENDED \<and> \<not> detectedCycle \<and> length path < unat maxLen")
    case False
    have "extendPath_loop vDefault path dir g visited trimLen maxLen result detectedCycle =
               Inr (path, visited, result, detectedCycle)"
      by (subst extendPath_loop.simps) (simp only: False if_False)
    with False less.prems show ?thesis by blast
  next
    case True
    then have P0: "P path visited SE_EXTENDED False" and len: "length path < unat maxLen"
      using less.prems by auto
    have ne: "path \<noteq> []"
      using nonempty [OF less.prems] .
    from ne show ?thesis
    proof (cases rule: extendPathBySingleVertex_cases [of path vDefault dir g trimLen])
      case (extended x)
      define path' where "path' = (if dir = FORWARD then path @ [x] else x # path)"
      have end': "(if dir = FORWARD then path_back path' else path_front path') = Inr x"
        by (simp add: path'_def path_back_def path_front_def)
      have ext': "extendPathBySingleVertex vDefault path dir g trimLen = Inr (SE_EXTENDED, path')"
        using extended by (simp only: path'_def)
      have unfold: "extendPath_loop vDefault path dir g visited trimLen maxLen result detectedCycle =
                    extendPath_loop vDefault path' dir g (insert x visited) trimLen maxLen
                      SE_EXTENDED (x \<in> visited)"
        by (subst extendPath_loop.simps) (simp add: True ext' end')
      have P': "P path' (insert x visited) SE_EXTENDED (x \<in> visited)"
        unfolding path'_def using push [OF P0 len] .
      have smaller: "(if SE_EXTENDED = SE_EXTENDED \<and> \<not> (x \<in> visited)
                      then Suc (unat maxLen) - length path' else 0)
                   < (if result = SE_EXTENDED \<and> \<not> detectedCycle
                      then Suc (unat maxLen) - length path else 0)"
        using True by (auto simp: path'_def)
      show ?thesis
        unfolding unfold using less.hyps [OF smaller P'] .
    next
      case (stopped r)
      have unfold: "extendPath_loop vDefault path dir g visited trimLen maxLen result detectedCycle =
                    extendPath_loop vDefault path dir g visited trimLen maxLen r False"
        by (subst extendPath_loop.simps) (simp add: True stopped)
      have P': "P path visited r False"
        using stop [OF P0 len stopped(1)] .
      have smaller: "(if r = SE_EXTENDED \<and> \<not> False then Suc (unat maxLen) - length path else 0)
                   < (if result = SE_EXTENDED \<and> \<not> detectedCycle
                      then Suc (unat maxLen) - length path else 0)"
        using True stopped(1) by auto
      show ?thesis
        unfolding unfold using less.hyps [OF smaller P'] .
    qed
  qed
qed

text \<open>
  The assertions of lines 498, 503 and 511 hold when the loop has run as above, and the
  code is an \<^verbatim>\<open>EXTENDED_TO_\<close> code exactly if the path is longer than on entry.
\<close>

lemma extendPath_code_total:
  assumes "origPathLen \<le> n"
    and "detectedCycle \<or> result \<noteq> SE_EXTENDED \<or> unat maxLen \<le> n"
    and "origPathLen < n \<Longrightarrow> n \<le> unat maxLen"
  shows "\<exists>code. extendPath_code n origPathLen detectedCycle result maxLen = Inr code \<and>
                (pathExtended code \<longleftrightarrow> origPathLen < n)"
proof (cases "origPathLen < n")
  case True
  with assms(2,3) show ?thesis
    by (cases result) (auto simp: extendPath_code_def)
next
  case False
  with assms(1) have "n = origPathLen" by simp
  with assms(2) show ?thesis
    by (cases result) (auto simp: extendPath_code_def)
qed

text \<open>
  A rule for \<^verbatim>\<open>extendPath\<close> as a whole. On a path that is not empty it returns a
  result code and fails no assertion. Any property \<open>Q\<close> of the path and the visited set
  that holds on entry, and that is kept when a vertex not yet in the visited set is
  added to both, holds on return: a vertex that is already in the set is taken off the
  path again. The path is not shorter than on entry.
\<close>

lemma extendPath_rule:
  assumes ne: "path \<noteq> []"
    and init: "Q path visited"
    and fresh: "\<And>p vis x. Q p vis \<Longrightarrow> p \<noteq> [] \<Longrightarrow> x \<notin> vis \<Longrightarrow>
                  Q (if dir = FORWARD then p @ [x] else x # p) (insert x vis)"
  shows "\<exists>code path' visited'.
           extendPath NO_LIMIT vDefault path dir g visited trimLen maxLen =
             Inr (code, path', visited') \<and>
           Q path' visited' \<and> length path \<le> length path' \<and>
           (pathExtended code \<longleftrightarrow> length path < length path')"
proof (cases "length path \<noteq> unat NO_LIMIT \<and> unat maxLen \<le> length path")
  case True
  then have "extendPath NO_LIMIT vDefault path dir g visited trimLen maxLen =
             Inr (LENGTH_LIMIT, path, visited)"
    using ne by (simp add: extendPath_def)
  then show ?thesis
    using init by simp
next
  case False
  define P where "P = (\<lambda>p vis (r :: SingleExtensionResult) c.
      if c then (\<exists>p0 x. p = (if dir = FORWARD then p0 @ [x] else x # p0) \<and> p0 \<noteq> [] \<and>
                   Q p0 vis \<and> length path \<le> length p0 \<and> length p0 < unat maxLen)
      else p \<noteq> [] \<and> Q p vis \<and> length path \<le> length p \<and>
           (length path < length p \<longrightarrow> length p \<le> unat maxLen))"
  have P_init: "P path visited SE_EXTENDED False"
    using ne init by (simp add: P_def)
  have P_nonempty: "p \<noteq> []" if "P p vis r c" for p vis r c
    using that by (auto simp: P_def split: if_splits)
  have P_push: "P (if dir = FORWARD then p @ [x] else x # p) (insert x vis) SE_EXTENDED (x \<in> vis)"
    if "P p vis SE_EXTENDED False" and "length p < unat maxLen" for p vis x
  proof (cases "x \<in> vis")
    case True
    then have "insert x vis = vis" by auto
    with that True show ?thesis
      unfolding P_def by auto
  next
    case False
    have "Q (if dir = FORWARD then p @ [x] else x # p) (insert x vis)"
      using that(1) False fresh [of p vis x] by (simp add: P_def)
    with that False show ?thesis
      unfolding P_def by auto
  qed
  have P_stop: "P p vis r False" if "P p vis SE_EXTENDED False" for p vis r
    using that by (simp add: P_def)
  obtain p1 vis1 r1 c1 where
    loop: "extendPath_loop vDefault path dir g visited trimLen maxLen SE_EXTENDED False =
             Inr (p1, vis1, r1, c1)"
    and P1: "P p1 vis1 r1 c1"
    and exit: "\<not> (r1 = SE_EXTENDED \<and> \<not> c1 \<and> length p1 < unat maxLen)"
  proof -
    have "\<exists>p1 vis1 r1 c1.
            extendPath_loop vDefault path dir g visited trimLen maxLen SE_EXTENDED False =
              Inr (p1, vis1, r1, c1) \<and>
            P p1 vis1 r1 c1 \<and> \<not> (r1 = SE_EXTENDED \<and> \<not> c1 \<and> length p1 < unat maxLen)"
      by (rule extendPath_loop_rule [where P = P])
         (rule P_init, erule P_nonempty, erule P_push, assumption, erule P_stop)
    then show thesis
      using that by blast
  qed
  obtain p2 where
    pop: "(if c1 then (if dir = FORWARD then pop_back p1 else pop_front p1) else Inr p1) = Inr p2"
    and Q2: "Q p2 vis1"
    and len2: "length path \<le> length p2"
    and grown: "length path < length p2 \<longrightarrow> length p2 \<le> unat maxLen"
    and lim: "c1 \<or> r1 \<noteq> SE_EXTENDED \<or> unat maxLen \<le> length p2"
  proof (cases c1)
    case True
    then obtain p0 x where "p1 = (if dir = FORWARD then p0 @ [x] else x # p0)" "p0 \<noteq> []"
        "Q p0 vis1" "length path \<le> length p0" "length p0 < unat maxLen"
      using P1 unfolding P_def by auto
    with True show thesis
      by (intro that [of p0]) (auto simp: pop_back_def pop_front_def)
  next
    case False
    with P1 exit show thesis
      by (intro that [of p1]) (auto simp: P_def)
  qed
  obtain code where
    code: "extendPath_code (length p2) (length path) c1 r1 maxLen = Inr code"
    and ext: "pathExtended code \<longleftrightarrow> length path < length p2"
    using extendPath_code_total [OF len2 lim] grown by blast
  have "extendPath NO_LIMIT vDefault path dir g visited trimLen maxLen = Inr (code, p2, vis1)"
    unfolding extendPath_def by (simp add: ne False loop pop code)
  then show ?thesis
    using Q2 len2 ext by simp
qed

text \<open>
  Runs of \<^verbatim>\<open>extendPath\<close> on the example graphs, with \<^verbatim>\<open>trimLen = 0\<close> and with
  \<^verbatim>\<open>UINT_MAX\<close> for \<^verbatim>\<open>NO_LIMIT\<close>.
\<close>

lemma unat_UINT_MAX: "unat (- 1 :: unsigned) = 4294967295"
  by (simp add: unsigned_minus_1_eq_mask mask_eq_exp_minus_1)

lemmas extendPath_eval =
  extendPath_def extendPath_loop.simps extendPathBySingleVertex_def extendPath_code_def
  path_back_def path_front_def pop_back_def pop_front_def unat_UINT_MAX

lemma chain_step:
  "getSingleVertexExtension 0 FORWARD chain 0 99 = (SE_EXTENDED, 1)"
  "getSingleVertexExtension (Suc 0) FORWARD chain 0 99 = (SE_EXTENDED, 2)"
  "getSingleVertexExtension 2 FORWARD chain 0 99 = (SE_EXTENDED, 3)"
  "getSingleVertexExtension 3 FORWARD chain 0 99 = (SE_DEAD_END, 99)"
  by code_simp+

lemma cyc_step:
  "getSingleVertexExtension 0 FORWARD cyc 0 99 = (SE_EXTENDED, 1)"
  "getSingleVertexExtension (Suc 0) FORWARD cyc 0 99 = (SE_EXTENDED, 2)"
  "getSingleVertexExtension 2 FORWARD cyc 0 99 = (SE_EXTENDED, 0)"
  by code_simp+

lemma two_cycle_step:
  "getSingleVertexExtension 0 FORWARD two_cycle 0 99 = (SE_EXTENDED, 1)"
  by code_simp

lemma chain_run:
  "extendPath (- 1) 99 [0] FORWARD chain {0} 0 (- 1) =
     Inr (EXTENDED_TO_DEAD_END, [0, 1, 2, 3], {0, 1, 2, 3})"
  by (auto simp: extendPath_eval chain_step)

lemma chain_run_limit:
  "extendPath (- 1) 99 [0] FORWARD chain {0} 0 2 = Inr (EXTENDED_TO_LENGTH_LIMIT, [0, 1], {0, 1})"
  by (auto simp: extendPath_eval chain_step)

lemma chain_run_none:
  "extendPath (- 1) 99 [3] FORWARD chain {3} 0 (- 1) = Inr (DEAD_END, [3], {3})"
  by (auto simp: extendPath_eval chain_step)

lemma cyc_run:
  "extendPath (- 1) 99 [0] FORWARD cyc {0} 0 (- 1) = Inr (EXTENDED_TO_CYCLE, [0, 1, 2], {0, 1, 2})"
  by (auto simp: extendPath_eval cyc_step)

lemma two_cycle_run:
  "extendPath (- 1) 99 [0, 1, 0] FORWARD two_cycle {0, 1} 0 (- 1) = Inr (CYCLE, [0, 1, 0], {0, 1})"
  by (auto simp: extendPath_eval two_cycle_step)

text \<open>
  Claim C7. When the path is not empty and its length on entry is at least \<^verbatim>\<open>maxLen\<close>,
  \<^verbatim>\<open>extendPath\<close> returns \<^verbatim>\<open>LENGTH_LIMIT\<close>, and the path and the visited set are those
  of the entry: no extension was attempted. This holds for every \<^verbatim>\<open>maxLen\<close>, so for
  every \<^verbatim>\<open>maxLen\<close> other than the sentinel \<^verbatim>\<open>NO_LIMIT\<close>.
\<close>

theorem extendPath_at_length_limit:
  assumes "path \<noteq> []" and "unat maxLen \<le> length path"
  shows "extendPath NO_LIMIT vDefault path dir g visited trimLen maxLen = Inr (LENGTH_LIMIT, path, visited)"
  using assms
  by (simp add: extendPath_def extendPath_loop.simps extendPath_code_def)

text \<open>
  On the chain, the path 0, 1 with \<^verbatim>\<open>maxLen = 2\<close> could be extended to 2, and is not.
\<close>

theorem extendPath_at_length_limit_witness:
  "[0, 1] \<noteq> ([] :: nat list) \<and> (2 :: unsigned) \<noteq> - 1 \<and>
   unat (2 :: unsigned) \<le> length [0 :: nat, 1] \<and>
   extendPath (- 1) 99 [0, 1] FORWARD chain {0, 1} 0 2 = Inr (LENGTH_LIMIT, [0, 1], {0, 1})"
  using extendPath_at_length_limit [of "[0, 1]" 2 "- 1" 99 FORWARD chain "{0, 1}" 0]
  by simp

text \<open>
  Claim C3. On a path that is not empty \<^verbatim>\<open>extendPath\<close> returns a result code, and the
  code is one of the four \<^verbatim>\<open>EXTENDED_TO_\<close> codes if and only if the path on return is
  longer than on entry; otherwise it is one of \<^verbatim>\<open>DEAD_END\<close>, \<^verbatim>\<open>BRANCHING_POINT\<close>,
  \<^verbatim>\<open>CYCLE\<close>, \<^verbatim>\<open>LENGTH_LIMIT\<close>. So \<^verbatim>\<open>pathExtended\<close> of the code holds exactly if the
  path grew.
\<close>

theorem extendPath_code_iff_grown:
  assumes "path \<noteq> []"
  shows "\<exists>code path' visited'.
           extendPath NO_LIMIT vDefault path dir g visited trimLen maxLen =
             Inr (code, path', visited') \<and>
           (code \<in> {EXTENDED_TO_DEAD_END, EXTENDED_TO_BRANCHING_POINT, EXTENDED_TO_CYCLE,
                     EXTENDED_TO_LENGTH_LIMIT} \<longleftrightarrow> length path < length path') \<and>
           (code \<in> {DEAD_END, BRANCHING_POINT, CYCLE, LENGTH_LIMIT} \<longleftrightarrow>
              \<not> length path < length path') \<and>
           (pathExtended code \<longleftrightarrow> length path < length path')"
proof -
  obtain code path' visited' where
    r: "extendPath NO_LIMIT vDefault path dir g visited trimLen maxLen = Inr (code, path', visited')"
    and e: "pathExtended code \<longleftrightarrow> length path < length path'"
    using extendPath_rule [of path "\<lambda>p vis. True" visited dir NO_LIMIT vDefault g trimLen maxLen] assms
    by auto
  have "code \<in> {EXTENDED_TO_DEAD_END, EXTENDED_TO_BRANCHING_POINT, EXTENDED_TO_CYCLE,
                 EXTENDED_TO_LENGTH_LIMIT} \<longleftrightarrow> pathExtended code"
    by (cases code) simp_all
  moreover have "code \<in> {DEAD_END, BRANCHING_POINT, CYCLE, LENGTH_LIMIT} \<longleftrightarrow> \<not> pathExtended code"
    by (cases code) simp_all
  ultimately show ?thesis
    using r e by simp
qed

text \<open>The chain from 0 grows by three vertices; from its last vertex 3 it does not grow.\<close>

theorem extendPath_code_iff_grown_witness:
  "[0] \<noteq> ([] :: nat list) \<and>
   extendPath (- 1) 99 [0] FORWARD chain {0} 0 (- 1) =
     Inr (EXTENDED_TO_DEAD_END, [0, 1, 2, 3], {0, 1, 2, 3}) \<and>
   length [0 :: nat] < length [0 :: nat, 1, 2, 3] \<and>
   [3] \<noteq> ([] :: nat list) \<and>
   extendPath (- 1) 99 [3] FORWARD chain {3} 0 (- 1) = Inr (DEAD_END, [3], {3}) \<and>
   \<not> length [3 :: nat] < length [3 :: nat]"
  using extendPath_code_iff_grown [of "[0]" "- 1" 99 FORWARD chain "{0}" 0 "- 1"]
    extendPath_code_iff_grown [of "[3]" "- 1" 99 FORWARD chain "{3}" 0 "- 1"]
    chain_run chain_run_none
  by simp

text \<open>
  Claim C8. On a path that is not empty, the path that \<^verbatim>\<open>extendPath\<close> returns is at
  least as long as the path on entry, for every result code and every visited set, and
  for the overload that builds the visited set itself.
\<close>

theorem extendPath_never_shrinks:
  assumes "path \<noteq> []"
  shows "(\<exists>code path' visited'.
            extendPath NO_LIMIT vDefault path dir g visited trimLen maxLen =
              Inr (code, path', visited') \<and> length path \<le> length path') \<and>
         (\<exists>code path'.
            extendPath_seeded NO_LIMIT vDefault path dir g trimLen maxLen = Inr (code, path') \<and>
            length path \<le> length path')"
proof -
  have core: "\<exists>code path' visited'.
            extendPath NO_LIMIT vDefault path dir g vis trimLen maxLen =
              Inr (code, path', visited') \<and> length path \<le> length path'" for vis
    using extendPath_rule [of path "\<lambda>p vis. True" vis dir NO_LIMIT vDefault g trimLen maxLen] assms
    by auto
  show ?thesis
    using core [of visited] core [of "set path"]
    by (auto simp: extendPath_seeded_def)
qed

text \<open>On the cycle the vertex 0 is added a second time and taken off again.\<close>

theorem extendPath_never_shrinks_witness:
  "[0] \<noteq> ([] :: nat list) \<and>
   extendPath (- 1) 99 [0] FORWARD cyc {0} 0 (- 1) = Inr (EXTENDED_TO_CYCLE, [0, 1, 2], {0, 1, 2}) \<and>
   extendPath_seeded (- 1) 99 [0] FORWARD cyc 0 (- 1) = Inr (EXTENDED_TO_CYCLE, [0, 1, 2]) \<and>
   length [0 :: nat] \<le> length [0 :: nat, 1, 2]"
  using extendPath_never_shrinks [of "[0]" "- 1" 99 FORWARD cyc "{0}" 0 "- 1"] cyc_run
  by (simp add: extendPath_seeded_def)

text \<open>
  Claim C10. When the path is not empty and the visited set contains every vertex of
  the path on entry, the visited set on return contains every vertex of the path on
  return: the precondition holds again for the next call with the same set.
\<close>

theorem extendPath_visited_covers_path:
  assumes "path \<noteq> []" and "set path \<subseteq> visited"
  shows "\<exists>code path' visited'.
           extendPath NO_LIMIT vDefault path dir g visited trimLen maxLen =
             Inr (code, path', visited') \<and> set path' \<subseteq> visited'"
proof -
  have "\<exists>code path' visited'.
           extendPath NO_LIMIT vDefault path dir g visited trimLen maxLen =
             Inr (code, path', visited') \<and> set path' \<subseteq> visited' \<and>
           length path \<le> length path' \<and> (pathExtended code \<longleftrightarrow> length path < length path')"
    by (rule extendPath_rule [where Q = "\<lambda>p vis. set p \<subseteq> vis"]) (use assms in auto)
  then show ?thesis by blast
qed

text \<open>On the chain, the three vertices added to the path are added to the visited set.\<close>

theorem extendPath_visited_covers_path_witness:
  "[0] \<noteq> ([] :: nat list) \<and> set [0] \<subseteq> {0 :: nat} \<and>
   extendPath (- 1) 99 [0] FORWARD chain {0} 0 (- 1) =
     Inr (EXTENDED_TO_DEAD_END, [0, 1, 2, 3], {0, 1, 2, 3}) \<and>
   set [0, 1, 2, 3] \<subseteq> {0 :: nat, 1, 2, 3}"
  using extendPath_visited_covers_path [of "[0]" "{0}" "- 1" 99 FORWARD chain 0 "- 1"] chain_run
  by simp

text \<open>
  Claim C4 as it is written: when the path is not empty and the visited set contains
  every vertex of the path on entry, a result \<^verbatim>\<open>CYCLE\<close> or \<^verbatim>\<open>EXTENDED_TO_CYCLE\<close> comes
  with a path without duplicate vertices. This fails for a path that has a duplicate
  on entry: on the cycle 0, 1, 0 the path 0, 1, 0 with the visited set of 0 and 1 is
  returned as it is, with \<^verbatim>\<open>CYCLE\<close>.
\<close>

theorem extendPath_cycle_duplicates_counterexample:
  "[0, 1, 0] \<noteq> ([] :: nat list) \<and> set [0, 1, 0] \<subseteq> {0 :: nat, 1} \<and>
   extendPath (- 1) 99 [0, 1, 0] FORWARD two_cycle {0, 1} 0 (- 1) =
     Inr (CYCLE, [0, 1, 0], {0, 1}) \<and>
   \<not> distinct [0 :: nat, 1, 0]"
  using two_cycle_run by simp

text \<open>
  Claim C4, amended. When the path is not empty, has no duplicate vertices on entry,
  and the visited set contains every vertex of the path on entry, then a result
  \<^verbatim>\<open>CYCLE\<close> or \<^verbatim>\<open>EXTENDED_TO_CYCLE\<close> comes with a path without duplicate vertices.
\<close>

theorem extendPath_cycle_distinct:
  assumes "path \<noteq> []" and "set path \<subseteq> visited" and "distinct path"
  shows "\<exists>code path' visited'.
           extendPath NO_LIMIT vDefault path dir g visited trimLen maxLen =
             Inr (code, path', visited') \<and>
           (code = CYCLE \<or> code = EXTENDED_TO_CYCLE \<longrightarrow> distinct path')"
proof -
  have "\<exists>code path' visited'.
           extendPath NO_LIMIT vDefault path dir g visited trimLen maxLen =
             Inr (code, path', visited') \<and> (set path' \<subseteq> visited' \<and> distinct path') \<and>
           length path \<le> length path' \<and> (pathExtended code \<longleftrightarrow> length path < length path')"
    by (rule extendPath_rule [where Q = "\<lambda>p vis. set p \<subseteq> vis \<and> distinct p"])
       (use assms in auto)
  then show ?thesis by blast
qed

text \<open>On the cycle 0, 1, 2, 0 the path 0 is extended to 0, 1, 2 and ends at the cycle.\<close>

theorem extendPath_cycle_distinct_witness:
  "[0] \<noteq> ([] :: nat list) \<and> set [0] \<subseteq> {0 :: nat} \<and> distinct [0 :: nat] \<and>
   extendPath (- 1) 99 [0] FORWARD cyc {0} 0 (- 1) = Inr (EXTENDED_TO_CYCLE, [0, 1, 2], {0, 1, 2}) \<and>
   distinct [0 :: nat, 1, 2]"
  using extendPath_cycle_distinct [of "[0]" "{0}" "- 1" 99 FORWARD cyc 0 "- 1"] cyc_run
  by simp

end
